theory Spec2Isabelle
  imports Complex_Main "HOL-Library.AList"
begin

section \<open>The Lorl relay server (server-node.js)\<close>

text \<open>
  The server keeps a registry \<open>rooms\<close> from the key string \<open>gameId__roomId\<close> to a
  room, a JavaScript \<open>Map\<close> from player identifier to session. Every connection handler
  closes over the room object it obtained when the connection was accepted, so rooms are
  modelled as objects in a store (\<open>heap\<close>, addressed by numbers) and the registry and the
  connections hold addresses. Handlers run one at a time (a single event loop), so every
  handler is a function from the state to the messages it sent and the state it left.

  Of the \<open>console.log\<close> lines the model keeps what can change the course of a handler:
  their template literals convert \<open>username\<close> and \<open>playerId\<close> to text, and that
  conversion can throw. Left out: the text that is logged, the parsing of the request URL
  (a connection event carries the \<open>game\<close> and \<open>room\<close> parameters as \<open>searchParams.get\<close>
  returns them), and the ping/pong heartbeat, whose \<open>terminate\<close> ends in the \<open>close\<close>
  handler modelled below.
\<close>

subsection \<open>JavaScript values\<close>

text \<open>
  What \<open>JSON.parse\<close> returns, and \<open>undefined\<close> for a property that is absent. A number
  is given by its value (the server only tests numbers for equality and for being zero, and
  \<open>0\<close> and \<open>-0\<close> are the same \<open>Map\<close> key); a string by its characters; an object by its
  members in the order of the text.
\<close>

datatype jsval =
    JUndefined
  | JNull
  | JBool bool
  | JNum rat
  | JStr string
  | JArr "jsval list"
  | JObj "(string \<times> jsval) list"

text \<open>
  A value as a variable or a \<open>Map\<close> key holds it: a primitive by value, an object or an
  array by reference. \<open>Ref a v\<close> is the object \<open>v\<close> of the message that \<open>JSON.parse\<close>
  allocated at \<open>a\<close>, so that two references are equal only if they come from one parse.
\<close>

datatype jsref = Val jsval | Ref nat jsval

fun hold :: "nat \<Rightarrow> jsval \<Rightarrow> jsref" where
  "hold a (JArr vs) = Ref a (JArr vs)"
| "hold a (JObj ps) = Ref a (JObj ps)"
| "hold a v = Val v"

fun content :: "jsref \<Rightarrow> jsval" where
  "content (Val v) = v"
| "content (Ref a v) = v"

text \<open>Truthiness, as \<open>!x\<close>, \<open>x || y\<close> and \<open>x && y\<close> test it.\<close>

fun truthy :: "jsval \<Rightarrow> bool" where
  "truthy JUndefined = False"
| "truthy JNull = False"
| "truthy (JBool b) = b"
| "truthy (JNum n) = (n \<noteq> 0)"
| "truthy (JStr s) = (s \<noteq> [])"
| "truthy (JArr vs) = True"
| "truthy (JObj ps) = True"

definition js_or :: "jsval \<Rightarrow> jsval \<Rightarrow> jsval" where
  "js_or x y = (if truthy x then x else y)"

text \<open>
  Whether the conversion to text in a template literal (\<open>`${x}`\<close>) throws a
  \<open>TypeError\<close>. A primitive always converts. A parsed object converts through the
  inherited \<open>toString\<close>, unless it has a member of that name: a parsed value is never
  callable, the inherited \<open>valueOf\<close> returns the object itself, and the conversion
  throws. An array converts through \<open>join\<close>, which converts every element other than
  \<open>null\<close>.
\<close>

fun to_text_throws :: "jsval \<Rightarrow> bool" where
  "to_text_throws (JObj ps) = (''toString'' \<in> set (map fst ps))"
| "to_text_throws (JArr vs) = list_ex to_text_throws vs"
| "to_text_throws v = False"

text \<open>
  Reading a property of a parsed message (\<open>msg.type\<close>, \<open>msg.playerId\<close>, \<open>msg.username\<close>,
  \<open>msg.data\<close>, \<open>msg.event\<close>: none of them is inherited from a prototype). When the text
  repeats a name, \<open>JSON.parse\<close> keeps the last value.
\<close>

fun get_prop :: "jsval \<Rightarrow> string \<Rightarrow> jsval" where
  "get_prop (JObj ps) k = (case map_of (rev ps) k of None \<Rightarrow> JUndefined | Some v \<Rightarrow> v)"
| "get_prop v k = JUndefined"

text \<open>The name of an array index: its decimal digits.\<close>

fun index_name :: "nat \<Rightarrow> string" where
  "index_name n =
     (if n < 10 then [''0123456789'' ! n]
      else index_name (n div 10) @ [''0123456789'' ! (n mod 10)])"

text \<open>
  The own enumerable properties that an object spread \<open>{...v}\<close> copies: the members of an
  object, the elements of an array and the characters of a string under their indices,
  nothing for any other value.
\<close>

fun own_props :: "jsval \<Rightarrow> (string \<times> jsval) list" where
  "own_props (JObj ps) = ps"
| "own_props (JArr vs) = zip (map index_name [0..<length vs]) vs"
| "own_props (JStr cs) = zip (map index_name [0..<length cs]) (map (\<lambda>c. JStr [c]) cs)"
| "own_props v = []"

text \<open>
  \<open>{ ...target, ...v }\<close>: each property of \<open>v\<close> in turn overwrites the property of
  that name or is appended. Properties are read by name (\<open>map_of\<close>); the place that the
  engine gives to index-like names when it enumerates an object is not modelled.
\<close>

definition spread :: "(string \<times> jsval) list \<Rightarrow> jsval \<Rightarrow> (string \<times> jsval) list" where
  "spread target v = foldl (\<lambda>acc (k, x). AList.update k x acc) target (own_props v)"

subsection \<open>Sessions, rooms, connections, the server state\<close>

datatype ready_state = OPEN | CLOSING | CLOSED

text \<open>\<open>{ ws, username, data }\<close>; \<open>ws\<close> is the number of the connection.\<close>

record session =
  ws :: nat
  username :: jsval
  data :: "(string \<times> jsval) list"

text \<open>
  A room is a \<open>Map\<close>: an association list in insertion order, \<open>set\<close> is
  \<open>AList.update\<close>, \<open>get\<close> is \<open>map_of\<close>, \<open>delete\<close> is \<open>AList.delete\<close>,
  \<open>size\<close> is \<open>length\<close> (the keys are distinct in every state of a run, lemma
  \<open>reachable_heap_distinct\<close>).
\<close>

type_synonym room_map = "(jsref \<times> session) list"

text \<open>The variables a connection handler closes over, and the socket's \<open>readyState\<close>.\<close>

record conn =
  room :: nat
  roomKey :: string
  playerId :: jsref
  readyState :: ready_state

record state =
  rooms :: "(string \<times> nat) list"
  heap :: "nat \<Rightarrow> room_map"
  next_room :: nat
  conns :: "nat \<rightharpoonup> conn"
  next_conn :: nat

definition init :: state where
  "init = \<lparr>rooms = [], heap = (\<lambda>a. []), next_room = 0, conns = Map.empty, next_conn = 0\<rparr>"

subsection \<open>Outbound messages\<close>

text \<open>
  The objects handed to \<open>JSON.stringify\<close>, a player identifier still as the variable
  holds it: \<open>{ id, username, data }\<close> in a snapshot, then \<open>error\<close> (message),
  \<open>room_state\<close> (players), \<open>player_joined\<close> (playerId, username), \<open>state_update\<close>
  (playerId, username, data), \<open>custom\<close> (playerId, event, data) and \<open>player_left\<close>
  (playerId, username).
\<close>

datatype player_entry = Player_entry (entry_id: jsref) (entry_username: jsval)
  (entry_data: "(string \<times> jsval) list")

datatype out_msg =
    Error_msg string
  | Room_state "player_entry list"
  | Player_joined jsref jsval
  | State_update jsref jsval jsval
  | Custom jsref jsval jsval
  | Player_left jsref jsval

text \<open>
  A handler either returns or throws a \<open>TypeError\<close> that nothing catches. In both cases
  it has called \<open>send\<close> on these sockets (\<open>sent\<close>) and left the state so (\<open>left\<close>);
  after a throw the process ends.
\<close>

datatype outcome =
    Uncaught_TypeError (sent: "(nat \<times> out_msg) list") (left: state)
  | Done (sent: "(nat \<times> out_msg) list") (left: state)

text \<open>The same for the \<open>close\<close> handler, which is given with what it sent.\<close>

datatype ending = Returned (ending_state: state) | Threw (ending_state: state)

subsection \<open>Registry and broadcast engine\<close>

definition getRoom :: "string \<Rightarrow> string \<Rightarrow> state \<Rightarrow> (nat \<times> string) \<times> state" where
  "getRoom gameId roomId s =
     (let key = gameId @ ''__'' @ roomId in
      case map_of (rooms s) key of
        Some a \<Rightarrow> ((a, key), s)
      | None \<Rightarrow>
          (let a = next_room s in
           ((a, key),
            s\<lparr>rooms := AList.update key a (rooms s),
              heap := (heap s)(a := []),
              next_room := a + 1\<rparr>)))"

definition cleanEmpty :: "state \<Rightarrow> state" where
  "cleanEmpty s = s\<lparr>rooms := filter (\<lambda>(key, a). length (heap s a) \<noteq> 0) (rooms s)\<rparr>"

definition ready :: "state \<Rightarrow> nat \<Rightarrow> ready_state" where
  "ready s c = (case conns s c of None \<Rightarrow> CLOSED | Some cn \<Rightarrow> readyState cn)"

definition sendTo :: "state \<Rightarrow> nat \<Rightarrow> out_msg \<Rightarrow> (nat \<times> out_msg) list" where
  "sendTo s c msg = (if ready s c = OPEN then [(c, msg)] else [])"

definition broadcast :: "state \<Rightarrow> room_map \<Rightarrow> out_msg \<Rightarrow> jsref \<Rightarrow> (nat \<times> out_msg) list" where
  "broadcast s rm msg excludeId =
     map (\<lambda>(id, sess). (ws sess, msg))
       (filter (\<lambda>(id, sess). id \<noteq> excludeId \<and> ready s (ws sess) = OPEN) rm)"


subsection \<open>The connection handler\<close>

text \<open>\<open>searchParams.get(name) || dflt\<close>: the parameter may be absent (\<open>None\<close>) or empty.\<close>

definition param_or :: "string option \<Rightarrow> string \<Rightarrow> string" where
  "param_or p dflt = (case p of None \<Rightarrow> dflt | Some v \<Rightarrow> if v = [] then dflt else v)"

definition on_connection :: "string option \<Rightarrow> string option \<Rightarrow> state \<Rightarrow> state" where
  "on_connection game rm s =
     (let gameId = param_or game ''unknown'';
          roomId = param_or rm ''default'';
          ((a, key), s1) = getRoom gameId roomId s;
          c = next_conn s1
      in s1\<lparr>conns := (conns s1)(c \<mapsto> \<lparr>room = a, roomKey = key, playerId = Val JNull,
                                       readyState = OPEN\<rparr>),
            next_conn := c + 1\<rparr>)"

text \<open>\<open>ws.close()\<close> starts the closing handshake of an open socket.\<close>

definition ws_close :: "nat \<Rightarrow> state \<Rightarrow> state" where
  "ws_close c s =
     (case conns s c of
        None \<Rightarrow> s
      | Some cn \<Rightarrow>
          s\<lparr>conns := (conns s)(c \<mapsto> cn\<lparr>readyState :=
               (if readyState cn = OPEN then CLOSING else readyState cn)\<rparr>)\<rparr>)"

text \<open>
  \<open>room.size >= MAX_PLAYERS\<close>, where \<open>MAX_PLAYERS\<close> is what \<open>parseInt\<close> made of the
  environment: an integer, or \<open>NaN\<close> (\<open>None\<close>), with which every comparison is false.
\<close>

definition room_full :: "int option \<Rightarrow> nat \<Rightarrow> bool" where
  "room_full MAX_PLAYERS n = (case MAX_PLAYERS of None \<Rightarrow> False | Some m \<Rightarrow> int n \<ge> m)"

text \<open>The snapshot that the \<open>join\<close> case collects with \<open>room.forEach\<close>.\<close>

definition playersList :: "room_map \<Rightarrow> player_entry list" where
  "playersList rm = map (\<lambda>(id, sess). Player_entry id (username sess) (data sess)) rm"

text \<open>
  The \<open>join\<close> case. Its last statement logs \<open>`... ${username} (${playerId}) joined
  ...`\<close>: when one of the two does not convert to text, the handler throws there, after
  the snapshot, the insertion and the broadcast.
\<close>

definition case_join :: "int option \<Rightarrow> nat \<Rightarrow> conn \<Rightarrow> nat \<Rightarrow> jsval \<Rightarrow> state \<Rightarrow> outcome" where
  "case_join MAX_PLAYERS c cn addr msg s =
     (let pid = hold addr (get_prop msg ''playerId'');
          s1 = s\<lparr>conns := (conns s)(c \<mapsto> cn\<lparr>playerId := pid\<rparr>)\<rparr>;
          uname = js_or (get_prop msg ''username'') (JStr ''Player'');
          rm = heap s1 (room cn)
      in if room_full MAX_PLAYERS (length rm) then
           Done (sendTo s1 c (Error_msg ''Room is full'')) (ws_close c s1)
         else
           (let out1 = sendTo s1 c (Room_state (playersList rm));
                rm' = AList.update pid \<lparr>ws = c, username = uname, data = []\<rparr> rm;
                s2 = s1\<lparr>heap := (heap s1)(room cn := rm')\<rparr>;
                out2 = broadcast s2 rm' (Player_joined pid uname) pid
            in if to_text_throws uname \<or> to_text_throws (content pid)
               then Uncaught_TypeError (out1 @ out2) s2
               else Done (out1 @ out2) s2))"

definition case_state_update :: "nat \<Rightarrow> conn \<Rightarrow> jsval \<Rightarrow> state \<Rightarrow> outcome" where
  "case_state_update c cn msg s =
     (let pid = playerId cn;
          rm = heap s (room cn)
      in case (if truthy (content pid) then map_of rm pid else None) of
           None \<Rightarrow> Done [] s
         | Some sess \<Rightarrow>
             (let d = get_prop msg ''data'';
                  rm' = AList.update pid (sess\<lparr>data := spread (data sess) d\<rparr>) rm;
                  s1 = s\<lparr>heap := (heap s)(room cn := rm')\<rparr>
              in Done (broadcast s1 rm' (State_update pid (username sess) d) pid) s1))"

definition case_custom :: "nat \<Rightarrow> conn \<Rightarrow> jsval \<Rightarrow> state \<Rightarrow> outcome" where
  "case_custom c cn msg s =
     (let pid = playerId cn
      in Done (broadcast s (heap s (room cn))
                 (Custom pid (get_prop msg ''event'') (get_prop msg ''data'')) pid) s)"

text \<open>
  The \<open>message\<close> handler of connection \<open>c\<close>. \<open>raw\<close> is what \<open>JSON.parse\<close> made of the
  frame (\<open>None\<close> when it threw) and \<open>addr\<close> where it allocated the result, a fresh
  address at every frame. Reading \<open>msg.type\<close> of \<open>null\<close> or \<open>undefined\<close> throws, and
  nothing catches it.
\<close>

definition on_message :: "int option \<Rightarrow> nat \<Rightarrow> nat \<Rightarrow> jsval option \<Rightarrow> state \<Rightarrow> outcome" where
  "on_message MAX_PLAYERS c addr raw s =
     (case conns s c of
        None \<Rightarrow> Done [] s
      | Some cn \<Rightarrow>
          (case raw of
             None \<Rightarrow> Done [] s
           | Some msg \<Rightarrow>
               if msg = JNull \<or> msg = JUndefined then Uncaught_TypeError [] s
               else if get_prop msg ''type'' = JStr ''join'' then
                 case_join MAX_PLAYERS c cn addr msg s
               else if get_prop msg ''type'' = JStr ''state_update'' then
                 case_state_update c cn msg s
               else if get_prop msg ''type'' = JStr ''custom'' then
                 case_custom c cn msg s
               else Done [] s))"

text \<open>
  The \<open>close\<close> handler. After the removal and the broadcast it logs
  \<open>`... ${session.username} left ...`\<close>, before the cleanup pass: when the username
  does not convert to text the handler throws there and the pass does not run.
\<close>

definition on_close :: "nat \<Rightarrow> state \<Rightarrow> (nat \<times> out_msg) list \<times> ending" where
  "on_close c s =
     (case conns s c of
        None \<Rightarrow> ([], Returned s)
      | Some cn \<Rightarrow>
          (let pid = playerId cn; rm = heap s (room cn)
           in if \<not> truthy (content pid) then ([], Returned s)
              else case map_of rm pid of
                     None \<Rightarrow> ([], Returned (cleanEmpty s))
                   | Some sess \<Rightarrow>
                       (let rm' = AList.delete pid rm;
                            s1 = s\<lparr>heap := (heap s)(room cn := rm')\<rparr>;
                            out = broadcast s1 rm' (Player_left pid (username sess))
                                    (Val JNull)
                        in if to_text_throws (username sess) then (out, Threw s1)
                           else (out, Returned (cleanEmpty s1)))))"

definition on_error :: "nat \<Rightarrow> state \<Rightarrow> (nat \<times> out_msg) list \<times> state" where
  "on_error c s =
     (case conns s c of
        None \<Rightarrow> ([], s)
      | Some cn \<Rightarrow>
          (let pid = playerId cn;
               s1 = (if truthy (content pid)
                     then s\<lparr>heap := (heap s)(room cn := AList.delete pid (heap s (room cn)))\<rparr>
                     else s)
           in ([], cleanEmpty s1)))"

subsection \<open>Runs of the server\<close>

text \<open>
  What the event loop can deliver: a new connection with its \<open>game\<close> and \<open>room\<close>
  parameters, a frame on a connection (with the result of \<open>JSON.parse\<close> and the
  address of that result), the \<open>close\<close> and \<open>error\<close> events of a socket, and a change
  of a socket's \<open>readyState\<close> by the transport. The socket is \<open>CLOSED\<close> when its
  \<open>close\<close> event is emitted. A run stops when a handler throws: the final state is then
  \<open>None\<close>.
\<close>

datatype event =
    Connection "string option" "string option"
  | Message nat nat "jsval option"
  | Close nat
  | Error nat
  | Transport nat ready_state

definition set_ready :: "nat \<Rightarrow> ready_state \<Rightarrow> state \<Rightarrow> state" where
  "set_ready c rs s =
     (case conns s c of
        None \<Rightarrow> s
      | Some cn \<Rightarrow> s\<lparr>conns := (conns s)(c \<mapsto> cn\<lparr>readyState := rs\<rparr>)\<rparr>)"

definition step :: "int option \<Rightarrow> event \<Rightarrow> state \<Rightarrow> outcome" where
  "step MAX_PLAYERS ev s =
     (case ev of
        Connection game rm \<Rightarrow> Done [] (on_connection game rm s)
      | Message c addr raw \<Rightarrow> on_message MAX_PLAYERS c addr raw s
      | Close c \<Rightarrow>
          (case on_close c (set_ready c CLOSED s) of
             (out, Returned s') \<Rightarrow> Done out s'
           | (out, Threw s') \<Rightarrow> Uncaught_TypeError out s')
      | Error c \<Rightarrow> (case on_error c s of (out, s') \<Rightarrow> Done out s')
      | Transport c rs \<Rightarrow> Done [] (set_ready c rs s))"

fun run :: "int option \<Rightarrow> event list \<Rightarrow> state \<Rightarrow> (nat \<times> out_msg) list \<times> state option" where
  "run MAX_PLAYERS [] s = ([], Some s)"
| "run MAX_PLAYERS (ev # evs) s =
     (case step MAX_PLAYERS ev s of
        Uncaught_TypeError out s' \<Rightarrow> (out, None)
      | Done out s' \<Rightarrow> (case run MAX_PLAYERS evs s' of (out', r) \<Rightarrow> (out @ out', r)))"

subsection \<open>Example frames and states\<close>

text \<open>
  The frames \<open>{type: "join", playerId: p, username: u}\<close>,
  \<open>{type: "state_update", data: d}\<close> and \<open>{type: "custom", event: e, data: d}\<close>.
\<close>

definition join_msg :: "string \<Rightarrow> string \<Rightarrow> jsval" where
  "join_msg p u = JObj [(''type'', JStr ''join''), (''playerId'', JStr p), (''username'', JStr u)]"

definition state_update_msg :: "(string \<times> jsval) list \<Rightarrow> jsval" where
  "state_update_msg d = JObj [(''type'', JStr ''state_update''), (''data'', JObj d)]"

definition custom_msg :: "string \<Rightarrow> jsval \<Rightarrow> jsval" where
  "custom_msg e d = JObj [(''type'', JStr ''custom''), (''event'', JStr e), (''data'', d)]"

text \<open>Two clients connect to game \<open>1\<close>, room \<open>lobby\<close>.\<close>

definition lobby :: "event list" where
  "lobby = [Connection (Some ''1'') (Some ''lobby''), Connection (Some ''1'') (Some ''lobby'')]"

definition lobby_conn :: "jsref \<Rightarrow> conn" where
  "lobby_conn p = \<lparr>room = 0, roomKey = ''1__lobby'', playerId = p, readyState = OPEN\<rparr>"

text \<open>The state after \<open>lobby\<close> and the join of the first client as \<open>p1\<close>, \<open>Al\<close>.\<close>

definition al_joined :: state where
  "al_joined =
     \<lparr>rooms = [(''1__lobby'', 0)],
      heap = (\<lambda>a. [])(0 := [(Val (JStr ''p1''), \<lparr>ws = 0, username = JStr ''Al'', data = []\<rparr>)]),
      next_room = 1,
      conns = [0 \<mapsto> lobby_conn (Val (JStr ''p1'')), 1 \<mapsto> lobby_conn (Val JNull)],
      next_conn = 2\<rparr>"

text \<open>The state after the second client has joined too, as \<open>p2\<close>, \<open>Bo\<close>.\<close>

definition both_joined :: state where
  "both_joined =
     \<lparr>rooms = [(''1__lobby'', 0)],
      heap = (\<lambda>a. [])(0 := [(Val (JStr ''p1''), \<lparr>ws = 0, username = JStr ''Al'', data = []\<rparr>),
                            (Val (JStr ''p2''), \<lparr>ws = 1, username = JStr ''Bo'', data = []\<rparr>)]),
      next_room = 1,
      conns = [0 \<mapsto> lobby_conn (Val (JStr ''p1'')), 1 \<mapsto> lobby_conn (Val (JStr ''p2''))],
      next_conn = 2\<rparr>"

text \<open>
  Two clients in two rooms of game \<open>1\<close>: \<open>p1\<close> in \<open>lobby\<close>, \<open>p2\<close> in \<open>arena\<close>.
\<close>

definition two_rooms :: state where
  "two_rooms =
     \<lparr>rooms = [(''1__lobby'', 0), (''1__arena'', 1)],
      heap = (\<lambda>a. [])(0 := [(Val (JStr ''p1''), \<lparr>ws = 0, username = JStr ''Al'', data = []\<rparr>)],
                       1 := [(Val (JStr ''p2''), \<lparr>ws = 1, username = JStr ''Bo'', data = []\<rparr>)]),
      next_room = 2,
      conns = [0 \<mapsto> lobby_conn (Val (JStr ''p1'')),
               1 \<mapsto> \<lparr>room = 1, roomKey = ''1__arena'', playerId = Val (JStr ''p2''),
                        readyState = OPEN\<rparr>],
      next_conn = 2\<rparr>"


subsection \<open>Well-formed states\<close>

text \<open>
  What every state of a run satisfies, and what keeps rooms with different key strings
  apart: the registry is one-to-one, registered and held room objects have been allocated,
  a room object is registered under the key of the connections that hold it only, two
  connections that hold one room object have one key, and every session of a room belongs
  to a connection that holds that room.
\<close>

definition wf_state :: "state \<Rightarrow> bool" where
  "wf_state s \<longleftrightarrow>
     distinct (map fst (rooms s)) \<and> distinct (map snd (rooms s)) \<and>
     (\<forall>k a. (k, a) \<in> set (rooms s) \<longrightarrow> a < next_room s) \<and>
     (\<forall>c cn. conns s c = Some cn \<longrightarrow>
        c < next_conn s \<and> room cn < next_room s \<and>
        (\<forall>k. (k, room cn) \<in> set (rooms s) \<longrightarrow> k = roomKey cn)) \<and>
     (\<forall>c1 c2 cn1 cn2. conns s c1 = Some cn1 \<and> conns s c2 = Some cn2 \<and> room cn1 = room cn2 \<longrightarrow>
        roomKey cn1 = roomKey cn2) \<and>
     (\<forall>a id sess. (id, sess) \<in> set (heap s a) \<longrightarrow>
        (\<exists>cn. conns s (ws sess) = Some cn \<and> room cn = a))"


section \<open>Properties\<close>

subsection \<open>Auxiliary facts\<close>



lemma filter_update_excluded:
  "filter (\<lambda>(id, x). id \<noteq> k \<and> P x) (AList.update k v al) =
   filter (\<lambda>(id, x). id \<noteq> k \<and> P x) al"
  by (induction al) auto

lemma map_of_foldl_update:
  "map_of (foldl (\<lambda>acc (k, x). AList.update k x acc) t ps) = map_of t ++ map_of (rev ps)"
proof (induction ps arbitrary: t)
  case Nil
  then show ?case by simp
next
  case (Cons p ps)
  obtain k x where p: "p = (k, x)" by (cases p)
  have "map_of (foldl (\<lambda>acc (k, x). AList.update k x acc) t (p # ps)) =
        map_of (AList.update k x t) ++ map_of (rev ps)"
    using Cons.IH[of "AList.update k x t"] by (simp add: p)
  also have "\<dots> = map_of t ++ map_of (rev (p # ps))"
    by (auto simp: p update_conv' map_add_def fun_eq_iff split: option.splits)
  finally show ?case .
qed

lemma map_of_spread: "map_of (spread t v) = map_of t ++ map_of (rev (own_props v))"
  by (simp add: spread_def map_of_foldl_update)

lemma content_hold [simp]: "content (hold a v) = v"
  by (cases v) auto

lemma join_not_null: "get_prop msg ''type'' = JStr t \<Longrightarrow> msg \<noteq> JNull \<and> msg \<noteq> JUndefined"
  by (cases msg) auto

lemma ready_set_playerId [simp]:
  "conns s c = Some cn \<Longrightarrow>
   ready (s\<lparr>conns := (conns s)(c \<mapsto> cn\<lparr>playerId := p\<rparr>)\<rparr>) x = ready s x"
  by (simp add: ready_def)

lemma ready_heap [simp]: "ready (s\<lparr>heap := h\<rparr>) x = ready s x"
  by (simp add: ready_def)

lemma ready_rooms [simp]: "ready (s\<lparr>rooms := h\<rparr>) x = ready s x"
  by (simp add: ready_def)

lemma broadcast_ready_cong:
  "(\<And>x. ready s x = ready t x) \<Longrightarrow> broadcast s rm msg e = broadcast t rm msg e"
  by (simp add: broadcast_def)

lemma broadcast_update_excluded:
  "broadcast s (AList.update k v rm) msg k = broadcast s rm msg k"
  by (simp add: broadcast_def filter_update_excluded)

lemma on_message_join:
  assumes "conns s c = Some cn" and "get_prop msg ''type'' = JStr ''join''"
  shows "on_message mx c addr (Some msg) s = case_join mx c cn addr msg s"
  using assms join_not_null[OF assms(2)] by (simp add: on_message_def)

lemma on_message_state_update:
  assumes "conns s c = Some cn" and "get_prop msg ''type'' = JStr ''state_update''"
  shows "on_message mx c addr (Some msg) s = case_state_update c cn msg s"
  using assms join_not_null[OF assms(2)] by (simp add: on_message_def)

lemma on_message_custom:
  assumes "conns s c = Some cn" and "get_prop msg ''type'' = JStr ''custom''"
  shows "on_message mx c addr (Some msg) s = case_custom c cn msg s"
  using assms join_not_null[OF assms(2)] by (simp add: on_message_def)

lemma heap_cleanEmpty [simp]: "heap (cleanEmpty s) = heap s"
  by (simp add: cleanEmpty_def)

lemma conns_cleanEmpty [simp]: "conns (cleanEmpty s) = conns s"
  by (simp add: cleanEmpty_def)

lemma next_room_cleanEmpty [simp]: "next_room (cleanEmpty s) = next_room s"
  by (simp add: cleanEmpty_def)

lemma rooms_cleanEmpty_subset: "set (rooms (cleanEmpty s)) \<subseteq> set (rooms s)"
  by (auto simp: cleanEmpty_def)



lemma on_close_removes:
  assumes "conns t c = Some cn" and "truthy (content (playerId cn))"
    and "map_of (heap t (room cn)) (playerId cn) = Some sess"
  shows "on_close c t =
     (broadcast t (AList.delete (playerId cn) (heap t (room cn)))
        (Player_left (playerId cn) (username sess)) (Val JNull),
      if to_text_throws (username sess)
      then Threw (t\<lparr>heap := (heap t)(room cn := AList.delete (playerId cn) (heap t (room cn)))\<rparr>)
      else Returned (cleanEmpty
             (t\<lparr>heap := (heap t)(room cn := AList.delete (playerId cn) (heap t (room cn)))\<rparr>)))"
  using assms by (simp add: on_close_def Let_def broadcast_def ready_def)


lemma heap_set_ready [simp]: "heap (set_ready c rs s) = heap s"
  by (simp add: set_ready_def split: option.splits)

lemma rooms_set_ready [simp]: "rooms (set_ready c rs s) = rooms s"
  by (simp add: set_ready_def split: option.splits)

lemma next_room_set_ready [simp]: "next_room (set_ready c rs s) = next_room s"
  by (simp add: set_ready_def split: option.splits)

lemma next_conn_set_ready [simp]: "next_conn (set_ready c rs s) = next_conn s"
  by (simp add: set_ready_def split: option.splits)

lemma ready_set_ready:
  "ready (set_ready c rs s) x = (if x = c \<and> conns s c \<noteq> None then rs else ready s x)"
  by (auto simp: set_ready_def ready_def split: option.splits)


lemma case_join_accepted:
  assumes "conns s c = Some cn" and "\<not> room_full mx (length (heap s (room cn)))"
    and "pid = hold addr (get_prop msg ''playerId'')"
    and "uname = js_or (get_prop msg ''username'') (JStr ''Player'')"
    and "out = sendTo s c (Room_state (playersList (heap s (room cn)))) @
               broadcast s (heap s (room cn)) (Player_joined pid uname) pid"
    and "t = s\<lparr>conns := (conns s)(c \<mapsto> cn\<lparr>playerId := pid\<rparr>),
                heap := (heap s)(room cn :=
                  AList.update pid \<lparr>ws = c, username = uname, data = []\<rparr> (heap s (room cn)))\<rparr>"
  shows "case_join mx c cn addr msg s =
     (if to_text_throws uname \<or> to_text_throws (content pid)
      then Uncaught_TypeError out t else Done out t)"
proof -
  have b: "\<And>p h rm m e. broadcast (s\<lparr>conns := (conns s)(c \<mapsto> cn\<lparr>playerId := p\<rparr>),
                                        heap := h\<rparr>) rm m e = broadcast s rm m e"
    by (rule broadcast_ready_cong) (use assms(1) in simp)
  have st: "\<And>p. sendTo (s\<lparr>conns := (conns s)(c \<mapsto> cn\<lparr>playerId := p\<rparr>)\<rparr>) c = sendTo s c"
    using assms(1) by (simp add: sendTo_def fun_eq_iff)
  show ?thesis
    using assms(2)
    by (simp add: assms(3-6) case_join_def Let_def st b broadcast_update_excluded)
qed



subsection \<open>Invariants of runs\<close>








text \<open>
  What a join that passes the capacity check has sent and the state it leaves, and when
  the handler returns.
\<close>

lemma on_message_join_accepted:
  assumes "conns s c = Some cn" and "get_prop msg ''type'' = JStr ''join''"
    and "\<not> room_full mx (length (heap s (room cn)))"
    and "pid = hold addr (get_prop msg ''playerId'')"
    and "uname = js_or (get_prop msg ''username'') (JStr ''Player'')"
    and "r = on_message mx c addr (Some msg) s"
  shows "sent r = sendTo s c (Room_state (playersList (heap s (room cn)))) @
                  broadcast s (heap s (room cn)) (Player_joined pid uname) pid"
    and "left r = s\<lparr>conns := (conns s)(c \<mapsto> cn\<lparr>playerId := pid\<rparr>),
                    heap := (heap s)(room cn :=
                      AList.update pid \<lparr>ws = c, username = uname, data = []\<rparr> (heap s (room cn)))\<rparr>"
    and "r = Done (sent r) (left r) \<longleftrightarrow>
         \<not> to_text_throws uname \<and> \<not> to_text_throws (content pid)"
  using assms(6) on_message_join [OF assms(1,2)]
    case_join_accepted [OF assms(1,3,4,5) refl refl]
  by auto





subsection \<open>Rooms with different key strings are isolated\<close>

text \<open>
  Every state of a run is well formed, and in a well-formed state whatever a handler of
  a connection sends (whether it then returns or throws) goes to connections that hold the
  same room object and have the same key string \<open>gameId__roomId\<close>. (Connections never leave \<open>conns\<close>: a closed socket keeps
  its number.)
\<close>

lemma set_update_subset: "set (AList.update k v al) \<subseteq> insert (k, v) (set al)"
  by (induction al) auto

lemma set_delete_subset: "set (AList.delete k al) \<subseteq> set al"
  by (induction al) auto

lemma wf_init: "wf_state init"
  by (simp add: wf_state_def init_def)

lemma update_absent: "map_of al k = None \<Longrightarrow> AList.update k v al = al @ [(k, v)]"
  by (induction al) (auto split: if_splits)

lemma wf_distinct: "wf_state s \<Longrightarrow> distinct (map fst (rooms s)) \<and> distinct (map snd (rooms s))"
  by (simp add: wf_state_def)

lemma wf_registered: "wf_state s \<Longrightarrow> (k, a) \<in> set (rooms s) \<Longrightarrow> a < next_room s"
  unfolding wf_state_def by blast

lemma wf_conn: "wf_state s \<Longrightarrow> conns s c = Some cn \<Longrightarrow> c < next_conn s \<and> room cn < next_room s"
  unfolding wf_state_def by blast

lemma wf_conn_key: "wf_state s \<Longrightarrow> conns s c = Some cn \<Longrightarrow> (k, room cn) \<in> set (rooms s) \<Longrightarrow>
   k = roomKey cn"
  unfolding wf_state_def by blast

lemma wf_same_room: "wf_state s \<Longrightarrow> conns s c1 = Some cn1 \<Longrightarrow> conns s c2 = Some cn2 \<Longrightarrow>
   room cn1 = room cn2 \<Longrightarrow> roomKey cn1 = roomKey cn2"
  unfolding wf_state_def by blast

lemma wf_session: "wf_state s \<Longrightarrow> (p, sess) \<in> set (heap s a) \<Longrightarrow>
   \<exists>cn. conns s (ws sess) = Some cn \<and> room cn = a"
  unfolding wf_state_def by blast

lemma wf_stateI:
  assumes "distinct (map fst (rooms s))" and "distinct (map snd (rooms s))"
    and "\<And>k a. (k, a) \<in> set (rooms s) \<Longrightarrow> a < next_room s"
    and "\<And>c cn. conns s c = Some cn \<Longrightarrow> c < next_conn s \<and> room cn < next_room s"
    and "\<And>c cn k. conns s c = Some cn \<Longrightarrow> (k, room cn) \<in> set (rooms s) \<Longrightarrow> k = roomKey cn"
    and "\<And>c1 c2 cn1 cn2. conns s c1 = Some cn1 \<Longrightarrow> conns s c2 = Some cn2 \<Longrightarrow>
        room cn1 = room cn2 \<Longrightarrow> roomKey cn1 = roomKey cn2"
    and "\<And>a p sess. (p, sess) \<in> set (heap s a) \<Longrightarrow>
        \<exists>cn. conns s (ws sess) = Some cn \<and> room cn = a"
  shows "wf_state s"
  unfolding wf_state_def using assms by blast

lemma wf_on_connection:
  assumes w: "wf_state s"
  shows "wf_state (on_connection g r s)"
proof -
  let ?key = "param_or g ''unknown'' @ ''__'' @ param_or r ''default''"
  note d = wf_distinct [OF w]
  show ?thesis
  proof (cases "map_of (rooms s) ?key")
    case None
    then have k: "?key \<notin> fst ` set (rooms s)"
      by (simp add: map_of_eq_None_iff)
    have fr: "next_room s \<notin> snd ` set (rooms s)"
    proof
      assume "next_room s \<in> snd ` set (rooms s)"
      then obtain k where "(k, next_room s) \<in> set (rooms s)" by auto
      from wf_registered [OF w this] show False by simp
    qed
    let ?cn = "\<lparr>room = next_room s, roomKey = ?key, playerId = Val JNull, readyState = OPEN\<rparr>"
    let ?t = "s\<lparr>rooms := rooms s @ [(?key, next_room s)], heap := (heap s)(next_room s := []),
          next_room := next_room s + 1,
          conns := (conns s)(next_conn s \<mapsto> ?cn),
          next_conn := next_conn s + 1\<rparr>"
    have e: "on_connection g r s = ?t"
      using None by (simp add: on_connection_def getRoom_def Let_def update_absent)
    have old: "\<And>c cn. conns ?t c = Some cn \<Longrightarrow> c \<noteq> next_conn s \<Longrightarrow> conns s c = Some cn"
      by simp
    have new: "\<And>cn. conns ?t (next_conn s) = Some cn \<Longrightarrow> cn = ?cn"
      by simp
    have nc: "conns s (next_conn s) = None"
      using wf_conn [OF w, of "next_conn s"] by (cases "conns s (next_conn s)") auto
    have "wf_state ?t"
    proof (rule wf_stateI)
      show "distinct (map fst (rooms ?t))" using d k by simp
      show "distinct (map snd (rooms ?t))" using d fr by simp
      show "\<And>k a. (k, a) \<in> set (rooms ?t) \<Longrightarrow> a < next_room ?t"
        using wf_registered [OF w] by (auto simp: less_Suc_eq)
      show "\<And>c cn. conns ?t c = Some cn \<Longrightarrow> c < next_conn ?t \<and> room cn < next_room ?t"
      proof -
        fix c cn assume a: "conns ?t c = Some cn"
        show "c < next_conn ?t \<and> room cn < next_room ?t"
        proof (cases "c = next_conn s")
          case True
          with a show ?thesis by auto
        next
          case False
          from wf_conn [OF w old [OF a False]] show ?thesis by simp
        qed
      qed
      show "\<And>c cn k. conns ?t c = Some cn \<Longrightarrow> (k, room cn) \<in> set (rooms ?t) \<Longrightarrow> k = roomKey cn"
      proof -
        fix c cn k assume a: "conns ?t c = Some cn" and b: "(k, room cn) \<in> set (rooms ?t)"
        show "k = roomKey cn"
        proof (cases "c = next_conn s")
          case True
          with a have cn: "cn = ?cn" by simp
          with b fr show ?thesis by (auto simp: image_iff)
        next
          case False
          note o = old [OF a False]
          from wf_conn [OF w o] b have "(k, room cn) \<in> set (rooms s)" by auto
          from wf_conn_key [OF w o this] show ?thesis .
        qed
      qed
      show "\<And>c1 c2 cn1 cn2. conns ?t c1 = Some cn1 \<Longrightarrow> conns ?t c2 = Some cn2 \<Longrightarrow>
        room cn1 = room cn2 \<Longrightarrow> roomKey cn1 = roomKey cn2"
      proof -
        fix c1 c2 cn1 cn2
        assume a1: "conns ?t c1 = Some cn1" and a2: "conns ?t c2 = Some cn2"
          and r: "room cn1 = room cn2"
        show "roomKey cn1 = roomKey cn2"
        proof (cases "c1 = next_conn s")
          case True
          then have c1: "cn1 = ?cn" using a1 by simp
          show ?thesis
          proof (cases "c2 = next_conn s")
            case True
            then show ?thesis using a2 c1 by simp
          next
            case False
            from wf_conn [OF w old [OF a2 False]] r c1 show ?thesis by simp
          qed
        next
          case False
          note o1 = old [OF a1 False]
          show ?thesis
          proof (cases "c2 = next_conn s")
            case True
            then have "cn2 = ?cn" using a2 by simp
            with wf_conn [OF w o1] r show ?thesis by simp
          next
            case False
            from wf_same_room [OF w o1 old [OF a2 False] r] show ?thesis .
          qed
        qed
      qed
      show "\<And>a p sess. (p, sess) \<in> set (heap ?t a) \<Longrightarrow>
        \<exists>cn. conns ?t (ws sess) = Some cn \<and> room cn = a"
      proof -
        fix a p sess assume a: "(p, sess) \<in> set (heap ?t a)"
        then have n: "a \<noteq> next_room s" and h: "(p, sess) \<in> set (heap s a)"
          by (auto split: if_splits)
        from wf_session [OF w h] obtain cn where cn: "conns s (ws sess) = Some cn" "room cn = a"
          by blast
        with nc have "ws sess \<noteq> next_conn s" by auto
        with cn show "\<exists>cn. conns ?t (ws sess) = Some cn \<and> room cn = a" by simp
      qed
    qed
    then show ?thesis by (simp only: e)
  next
    case (Some a)
    then have m: "(?key, a) \<in> set (rooms s)"
      by (rule map_of_SomeD)
    have u: "\<And>k. (k, a) \<in> set (rooms s) \<Longrightarrow> k = ?key"
    proof -
      fix k assume "(k, a) \<in> set (rooms s)"
      with m d show "k = ?key"
        by (metis distinct_map inj_onD snd_conv prod.inject)
    qed
    let ?cn = "\<lparr>room = a, roomKey = ?key, playerId = Val JNull, readyState = OPEN\<rparr>"
    let ?t = "s\<lparr>conns := (conns s)(next_conn s \<mapsto> ?cn), next_conn := next_conn s + 1\<rparr>"
    have e: "on_connection g r s = ?t"
      using Some by (simp add: on_connection_def getRoom_def Let_def)
    have old: "\<And>c cn. conns ?t c = Some cn \<Longrightarrow> c \<noteq> next_conn s \<Longrightarrow> conns s c = Some cn"
      by simp
    have nc: "conns s (next_conn s) = None"
      using wf_conn [OF w, of "next_conn s"] by (cases "conns s (next_conn s)") auto
    have "wf_state ?t"
    proof (rule wf_stateI)
      show "distinct (map fst (rooms ?t))" using d by simp
      show "distinct (map snd (rooms ?t))" using d by simp
      show "\<And>k a. (k, a) \<in> set (rooms ?t) \<Longrightarrow> a < next_room ?t"
        using wf_registered [OF w] by auto
      show "\<And>c cn. conns ?t c = Some cn \<Longrightarrow> c < next_conn ?t \<and> room cn < next_room ?t"
      proof -
        fix c cn assume a: "conns ?t c = Some cn"
        show "c < next_conn ?t \<and> room cn < next_room ?t"
        proof (cases "c = next_conn s")
          case True
          with a wf_registered [OF w m] show ?thesis by auto
        next
          case False
          from wf_conn [OF w old [OF a False]] show ?thesis by simp
        qed
      qed
      show "\<And>c cn k. conns ?t c = Some cn \<Longrightarrow> (k, room cn) \<in> set (rooms ?t) \<Longrightarrow> k = roomKey cn"
      proof -
        fix c cn k assume a: "conns ?t c = Some cn" and b: "(k, room cn) \<in> set (rooms ?t)"
        show "k = roomKey cn"
        proof (cases "c = next_conn s")
          case True
          with a have cn: "cn = ?cn" by simp
          with b u show ?thesis by simp
        next
          case False
          note o = old [OF a False]
          from b have "(k, room cn) \<in> set (rooms s)" by simp
          from wf_conn_key [OF w o this] show ?thesis .
        qed
      qed
      show "\<And>c1 c2 cn1 cn2. conns ?t c1 = Some cn1 \<Longrightarrow> conns ?t c2 = Some cn2 \<Longrightarrow>
        room cn1 = room cn2 \<Longrightarrow> roomKey cn1 = roomKey cn2"
      proof -
        fix c1 c2 cn1 cn2
        assume a1: "conns ?t c1 = Some cn1" and a2: "conns ?t c2 = Some cn2"
          and r: "room cn1 = room cn2"
        show "roomKey cn1 = roomKey cn2"
        proof (cases "c1 = next_conn s")
          case True
          then have c1: "cn1 = ?cn" using a1 by simp
          show ?thesis
          proof (cases "c2 = next_conn s")
            case True
            then show ?thesis using a2 c1 by simp
          next
            case False
            note o2 = old [OF a2 False]
            from m r c1 have "(?key, room cn2) \<in> set (rooms s)" by simp
            from wf_conn_key [OF w o2 this] c1 show ?thesis by simp
          qed
        next
          case False
          note o1 = old [OF a1 False]
          show ?thesis
          proof (cases "c2 = next_conn s")
            case True
            then have c2: "cn2 = ?cn" using a2 by simp
            from m r c2 have "(?key, room cn1) \<in> set (rooms s)" by simp
            from wf_conn_key [OF w o1 this] c2 show ?thesis by simp
          next
            case False
            from wf_same_room [OF w o1 old [OF a2 False] r] show ?thesis .
          qed
        qed
      qed
      show "\<And>a p sess. (p, sess) \<in> set (heap ?t a) \<Longrightarrow>
        \<exists>cn. conns ?t (ws sess) = Some cn \<and> room cn = a"
      proof -
        fix a p sess assume a: "(p, sess) \<in> set (heap ?t a)"
        then have h: "(p, sess) \<in> set (heap s a)" by simp
        from wf_session [OF w h] obtain cn where cn: "conns s (ws sess) = Some cn" "room cn = a"
          by blast
        with nc have "ws sess \<noteq> next_conn s" by auto
        with cn show "\<exists>cn. conns ?t (ws sess) = Some cn \<and> room cn = a" by simp
      qed
    qed
    then show ?thesis by (simp only: e)
  qed
qed

lemma wf_frame:
  assumes w: "wf_state s"
    and r: "rooms t = filter P (rooms s)"
    and n: "next_room t = next_room s" "next_conn t = next_conn s"
    and c: "\<And>c cn'. conns t c = Some cn' \<Longrightarrow>
              \<exists>cn. conns s c = Some cn \<and> room cn = room cn' \<and> roomKey cn = roomKey cn'"
    and h: "\<And>a p sess. (p, sess) \<in> set (heap t a) \<Longrightarrow>
              \<exists>cn. conns t (ws sess) = Some cn \<and> room cn = a"
  shows "wf_state t"
proof (rule wf_stateI)
  note d = wf_distinct [OF w]
  show "distinct (map fst (rooms t))"
    using d by (simp add: r distinct_map_filter)
  show "distinct (map snd (rooms t))"
    using d by (simp add: r distinct_map_filter)
  show "\<And>k a. (k, a) \<in> set (rooms t) \<Longrightarrow> a < next_room t"
    using wf_registered [OF w] by (auto simp: r n)
  show "\<And>c cn. conns t c = Some cn \<Longrightarrow> c < next_conn t \<and> room cn < next_room t"
  proof -
    fix x cn' assume "conns t x = Some cn'"
    from c [OF this] obtain cn where "conns s x = Some cn" "room cn = room cn'" by blast
    with wf_conn [OF w, of x cn] show "x < next_conn t \<and> room cn' < next_room t"
      by (simp add: n)
  qed
  show "\<And>c cn k. conns t c = Some cn \<Longrightarrow> (k, room cn) \<in> set (rooms t) \<Longrightarrow> k = roomKey cn"
  proof -
    fix x cn' k assume a: "conns t x = Some cn'" and b: "(k, room cn') \<in> set (rooms t)"
    from c [OF a] obtain cn where cn: "conns s x = Some cn" "room cn = room cn'"
      "roomKey cn = roomKey cn'" by blast
    from b have "(k, room cn) \<in> set (rooms s)" by (simp add: r cn)
    from wf_conn_key [OF w cn(1) this] cn show "k = roomKey cn'" by simp
  qed
  show "\<And>c1 c2 cn1 cn2. conns t c1 = Some cn1 \<Longrightarrow> conns t c2 = Some cn2 \<Longrightarrow>
        room cn1 = room cn2 \<Longrightarrow> roomKey cn1 = roomKey cn2"
  proof -
    fix c1 c2 cn1 cn2
    assume a1: "conns t c1 = Some cn1" and a2: "conns t c2 = Some cn2"
      and e: "room cn1 = room cn2"
    from c [OF a1] obtain d1 where d1: "conns s c1 = Some d1" "room d1 = room cn1"
      "roomKey d1 = roomKey cn1" by blast
    from c [OF a2] obtain d2 where d2: "conns s c2 = Some d2" "room d2 = room cn2"
      "roomKey d2 = roomKey cn2" by blast
    from wf_same_room [OF w d1(1) d2(1)] e d1 d2 show "roomKey cn1 = roomKey cn2" by simp
  qed
  show "\<And>a p sess. (p, sess) \<in> set (heap t a) \<Longrightarrow>
        \<exists>cn. conns t (ws sess) = Some cn \<and> room cn = a"
    by (rule h)
qed

lemma wf_frame2:
  assumes w: "wf_state s"
    and r: "rooms t = filter P (rooms s)"
    and n: "next_room t = next_room s" "next_conn t = next_conn s"
    and c: "\<And>x. map_option (\<lambda>cn. (room cn, roomKey cn)) (conns t x) =
                 map_option (\<lambda>cn. (room cn, roomKey cn)) (conns s x)"
    and h: "\<And>a p sess. (p, sess) \<in> set (heap t a) \<Longrightarrow>
              \<exists>cn. conns s (ws sess) = Some cn \<and> room cn = a"
  shows "wf_state t"
proof (rule wf_frame [OF w r n])
  show "\<And>c cn'. conns t c = Some cn' \<Longrightarrow>
          \<exists>cn. conns s c = Some cn \<and> room cn = room cn' \<and> roomKey cn = roomKey cn'"
  proof -
    fix x cn' assume a: "conns t x = Some cn'"
    with c [of x] show "\<exists>cn. conns s x = Some cn \<and> room cn = room cn' \<and> roomKey cn = roomKey cn'"
      by (cases "conns s x") auto
  qed
  show "\<And>a p sess. (p, sess) \<in> set (heap t a) \<Longrightarrow>
          \<exists>cn. conns t (ws sess) = Some cn \<and> room cn = a"
  proof -
    fix a p sess assume "(p, sess) \<in> set (heap t a)"
    from h [OF this] obtain cn where cn: "conns s (ws sess) = Some cn" "room cn = a" by blast
    with c [of "ws sess"] show "\<exists>cn. conns t (ws sess) = Some cn \<and> room cn = a"
      by (cases "conns t (ws sess)") auto
  qed
qed

lemma wf_case_join:
  assumes w: "wf_state s" and cn: "conns s c = Some cn"
    and m: "left (case_join mx c cn addr msg s) = t"
  shows "wf_state t"
proof (cases "room_full mx (length (heap s (room cn)))")
  case True
  with m have t: "t = ws_close c (s\<lparr>conns := (conns s)(c \<mapsto>
                        cn\<lparr>playerId := hold addr (get_prop msg ''playerId'')\<rparr>)\<rparr>)"
    by (auto simp: case_join_def Let_def)
  show ?thesis
  proof (rule wf_frame2 [OF w])
    show "rooms t = filter (\<lambda>x. True) (rooms s)" by (simp add: t ws_close_def)
    show "next_room t = next_room s" by (simp add: t ws_close_def)
    show "next_conn t = next_conn s" by (simp add: t ws_close_def)
    show "\<And>x. map_option (\<lambda>cn. (room cn, roomKey cn)) (conns t x) =
                 map_option (\<lambda>cn. (room cn, roomKey cn)) (conns s x)"
      using cn by (simp add: t ws_close_def)
    show "\<And>a p sess. (p, sess) \<in> set (heap t a) \<Longrightarrow>
              \<exists>cn. conns s (ws sess) = Some cn \<and> room cn = a"
      using wf_session [OF w] by (simp add: t ws_close_def)
  qed
next
  case False
  let ?pid = "hold addr (get_prop msg ''playerId'')"
  let ?new = "\<lparr>ws = c, username = js_or (get_prop msg ''username'') (JStr ''Player''), data = []\<rparr>"
  from False m have t: "t = s\<lparr>conns := (conns s)(c \<mapsto> cn\<lparr>playerId := ?pid\<rparr>),
        heap := (heap s)(room cn := AList.update ?pid ?new (heap s (room cn)))\<rparr>"
    by (auto simp: case_join_def Let_def)
  show ?thesis
  proof (rule wf_frame2 [OF w])
    show "rooms t = filter (\<lambda>x. True) (rooms s)" by (simp add: t)
    show "next_room t = next_room s" by (simp add: t)
    show "next_conn t = next_conn s" by (simp add: t)
    show "\<And>x. map_option (\<lambda>cn. (room cn, roomKey cn)) (conns t x) =
                 map_option (\<lambda>cn. (room cn, roomKey cn)) (conns s x)"
      using cn by (simp add: t)
    show "\<And>a p sess. (p, sess) \<in> set (heap t a) \<Longrightarrow>
              \<exists>cn. conns s (ws sess) = Some cn \<and> room cn = a"
    proof -
      fix a p sess assume a: "(p, sess) \<in> set (heap t a)"
      show "\<exists>cn. conns s (ws sess) = Some cn \<and> room cn = a"
      proof (cases "a = room cn")
        case True
        with a have "(p, sess) \<in> set (AList.update ?pid ?new (heap s (room cn)))"
          by (simp add: t)
        with set_update_subset have "(p, sess) = (?pid, ?new) \<or> (p, sess) \<in> set (heap s (room cn))"
          by fastforce
        then show ?thesis
        proof
          assume "(p, sess) = (?pid, ?new)"
          then have "ws sess = c" by auto
          with cn True show ?thesis by simp
        next
          assume "(p, sess) \<in> set (heap s (room cn))"
          from wf_session [OF w this] True show ?thesis by simp
        qed
      next
        case False
        with a have "(p, sess) \<in> set (heap s a)" by (simp add: t)
        from wf_session [OF w this] show ?thesis .
      qed
    qed
  qed
qed

lemma wf_case_state_update:
  assumes w: "wf_state s" and cn: "conns s c = Some cn"
    and m: "left (case_state_update c cn msg s) = t"
  shows "wf_state t"
proof (cases "if truthy (content (playerId cn)) then map_of (heap s (room cn)) (playerId cn) else None")
  case None
  with m have "t = s" by (auto simp: case_state_update_def Let_def)
  with w show ?thesis by simp
next
  case (Some sess)
  then have g: "map_of (heap s (room cn)) (playerId cn) = Some sess"
    by (simp split: if_splits)
  let ?new = "sess\<lparr>data := spread (data sess) (get_prop msg ''data'')\<rparr>"
  from Some m have t: "t = s\<lparr>heap := (heap s)(room cn :=
          AList.update (playerId cn) ?new (heap s (room cn)))\<rparr>"
    by (auto simp: case_state_update_def Let_def)
  show ?thesis
  proof (rule wf_frame2 [OF w])
    show "rooms t = filter (\<lambda>x. True) (rooms s)" by (simp add: t)
    show "next_room t = next_room s" by (simp add: t)
    show "next_conn t = next_conn s" by (simp add: t)
    show "\<And>x. map_option (\<lambda>cn. (room cn, roomKey cn)) (conns t x) =
                 map_option (\<lambda>cn. (room cn, roomKey cn)) (conns s x)"
      by (simp add: t)
    show "\<And>a p x. (p, x) \<in> set (heap t a) \<Longrightarrow>
              \<exists>cn. conns s (ws x) = Some cn \<and> room cn = a"
    proof -
      fix a p x assume a: "(p, x) \<in> set (heap t a)"
      show "\<exists>cn. conns s (ws x) = Some cn \<and> room cn = a"
      proof (cases "a = room cn")
        case True
        with a have "(p, x) \<in> set (AList.update (playerId cn) ?new (heap s (room cn)))"
          by (simp add: t)
        with set_update_subset
        have "(p, x) = (playerId cn, ?new) \<or> (p, x) \<in> set (heap s (room cn))"
          by fastforce
        then show ?thesis
        proof
          assume "(p, x) = (playerId cn, ?new)"
          then have "ws x = ws sess" by auto
          with wf_session [OF w map_of_SomeD [OF g]] True show ?thesis by simp
        next
          assume "(p, x) \<in> set (heap s (room cn))"
          from wf_session [OF w this] True show ?thesis by simp
        qed
      next
        case False
        with a have "(p, x) \<in> set (heap s a)" by (simp add: t)
        from wf_session [OF w this] show ?thesis .
      qed
    qed
  qed
qed

lemma on_message_cases:
  assumes "left (on_message mx c addr raw s) = t"
  shows "t = s \<or> (\<exists>cn msg. conns s c = Some cn \<and>
           (left (case_join mx c cn addr msg s) = t \<or>
            left (case_state_update c cn msg s) = t))"
proof (cases "conns s c")
  case None
  with assms show ?thesis by (simp add: on_message_def)
next
  case (Some cn)
  show ?thesis
  proof (cases raw)
    case None
    with assms Some show ?thesis by (simp add: on_message_def)
  next
    case (Some msg)
    with assms \<open>conns s c = Some cn\<close> show ?thesis
      by (simp add: on_message_def case_custom_def Let_def split: if_splits) blast+
  qed
qed

lemma wf_on_message:
  assumes w: "wf_state s"
  shows "wf_state (left (on_message mx c addr raw s))"
proof -
  let ?t = "left (on_message mx c addr raw s)"
  from on_message_cases [OF refl, of mx c addr raw s] consider "?t = s"
    | cn msg where "conns s c = Some cn" "left (case_join mx c cn addr msg s) = ?t"
    | cn msg where "conns s c = Some cn" "left (case_state_update c cn msg s) = ?t"
    by blast
  then show ?thesis
  proof cases
    case 1
    with w show ?thesis by simp
  next
    case 2
    then show ?thesis using wf_case_join [OF w] by blast
  next
    case 3
    then show ?thesis using wf_case_state_update [OF w] by blast
  qed
qed

lemma wf_cleanEmpty:
  assumes w: "wf_state s"
  shows "wf_state (cleanEmpty s)"
proof (rule wf_frame2 [OF w])
  show "rooms (cleanEmpty s) = filter (\<lambda>(key, a). length (heap s a) \<noteq> 0) (rooms s)"
    by (simp add: cleanEmpty_def)
  show "next_room (cleanEmpty s) = next_room s" by simp
  show "next_conn (cleanEmpty s) = next_conn s" by (simp add: cleanEmpty_def)
  show "\<And>x. map_option (\<lambda>cn. (room cn, roomKey cn)) (conns (cleanEmpty s) x) =
                 map_option (\<lambda>cn. (room cn, roomKey cn)) (conns s x)"
    by simp
  show "\<And>a p x. (p, x) \<in> set (heap (cleanEmpty s) a) \<Longrightarrow>
              \<exists>cn. conns s (ws x) = Some cn \<and> room cn = a"
    using wf_session [OF w] by simp
qed

lemma wf_delete:
  assumes w: "wf_state s"
  shows "wf_state (s\<lparr>heap := (heap s)(a := AList.delete k (heap s a))\<rparr>)"
    (is "wf_state ?t")
proof (rule wf_frame2 [OF w])
  show "rooms ?t = filter (\<lambda>x. True) (rooms s)" by simp
  show "next_room ?t = next_room s" by simp
  show "next_conn ?t = next_conn s" by simp
  show "\<And>x. map_option (\<lambda>cn. (room cn, roomKey cn)) (conns ?t x) =
                 map_option (\<lambda>cn. (room cn, roomKey cn)) (conns s x)"
    by simp
  show "\<And>b p x. (p, x) \<in> set (heap ?t b) \<Longrightarrow>
              \<exists>cn. conns s (ws x) = Some cn \<and> room cn = b"
  proof -
    fix b p x assume "(p, x) \<in> set (heap ?t b)"
    then have "(p, x) \<in> set (heap s b)"
      using set_delete_subset [of k "heap s a"] by (cases "b = a") auto
    from wf_session [OF w this] show "\<exists>cn. conns s (ws x) = Some cn \<and> room cn = b" .
  qed
qed

lemma wf_on_close:
  assumes w: "wf_state s"
  shows "wf_state (ending_state (snd (on_close c s)))"
proof (cases "conns s c")
  case None
  with w show ?thesis by (simp add: on_close_def)
next
  case (Some cn)
  show ?thesis
  proof (cases "truthy (content (playerId cn))")
    case False
    with Some w show ?thesis by (simp add: on_close_def)
  next
    case True
    show ?thesis
    proof (cases "map_of (heap s (room cn)) (playerId cn)")
      case None
      with Some True wf_cleanEmpty [OF w] show ?thesis by (simp add: on_close_def)
    next
      case (Some sess)
      with \<open>conns s c = Some cn\<close> True
        wf_delete [OF w, of "room cn" "playerId cn"]
        wf_cleanEmpty [OF wf_delete [OF w, of "room cn" "playerId cn"]]
      show ?thesis by (simp add: on_close_def Let_def)
    qed
  qed
qed

lemma wf_on_error:
  assumes w: "wf_state s"
  shows "wf_state (snd (on_error c s))"
proof (cases "conns s c")
  case None
  with w show ?thesis by (simp add: on_error_def)
next
  case (Some cn)
  with wf_cleanEmpty [OF w] wf_cleanEmpty [OF wf_delete [OF w, of "room cn" "playerId cn"]]
  show ?thesis by (simp add: on_error_def Let_def)
qed

lemma wf_set_ready:
  assumes w: "wf_state s"
  shows "wf_state (set_ready c rs s)"
proof (cases "conns s c")
  case None
  with w show ?thesis by (simp add: set_ready_def)
next
  case (Some cn)
  show ?thesis
  proof (rule wf_frame2 [OF w])
    show "rooms (set_ready c rs s) = filter (\<lambda>x. True) (rooms s)"
      using Some by (simp add: set_ready_def)
    show "next_room (set_ready c rs s) = next_room s" using Some by (simp add: set_ready_def)
    show "next_conn (set_ready c rs s) = next_conn s" using Some by (simp add: set_ready_def)
    show "\<And>x. map_option (\<lambda>cn. (room cn, roomKey cn)) (conns (set_ready c rs s) x) =
                 map_option (\<lambda>cn. (room cn, roomKey cn)) (conns s x)"
      using Some by (simp add: set_ready_def)
    show "\<And>a p x. (p, x) \<in> set (heap (set_ready c rs s) a) \<Longrightarrow>
              \<exists>cn. conns s (ws x) = Some cn \<and> room cn = a"
      using wf_session [OF w] Some by (simp add: set_ready_def)
  qed
qed

lemma step_Close_parts:
  "sent (step mx (Close c) s) = fst (on_close c (set_ready c CLOSED s)) \<and>
   left (step mx (Close c) s) = ending_state (snd (on_close c (set_ready c CLOSED s)))"
  by (simp add: step_def split: prod.splits ending.splits)

lemma wf_step:
  assumes w: "wf_state s"
  shows "wf_state (left (step mx ev s))"
proof (cases ev)
  case (Connection g r)
  with wf_on_connection [OF w] show ?thesis by (simp add: step_def)
next
  case (Message c addr raw)
  with wf_on_message [OF w] show ?thesis by (simp add: step_def)
next
  case (Close c)
  with wf_on_close [OF wf_set_ready [OF w]] show ?thesis by (simp add: step_Close_parts)
next
  case (Error c)
  with wf_on_error [OF w, of c] show ?thesis by (auto simp: step_def split: prod.splits)
next
  case (Transport c rs)
  with wf_set_ready [OF w] show ?thesis by (simp add: step_def)
qed

lemma wf_run: "wf_state s \<Longrightarrow> run mx evs s = (out, Some t) \<Longrightarrow> wf_state t"
proof (induction evs arbitrary: s out)
  case Nil
  then show ?case by simp
next
  case (Cons ev evs)
  from Cons.prems(2) obtain o1 s1 o2 where
    st: "step mx ev s = Done o1 s1" and r: "run mx evs s1 = (o2, Some t)"
    by (auto split: outcome.splits prod.splits)
  from wf_step [OF Cons.prems(1), of mx ev] st have "wf_state s1" by simp
  from Cons.IH [OF this r] show ?case .
qed

lemma broadcast_recipient:
  "(c', m) \<in> set (broadcast t rm msg e) \<Longrightarrow> \<exists>p x. (p, x) \<in> set rm \<and> ws x = c' \<and> p \<noteq> e"
  by (auto simp: broadcast_def)

lemma sendTo_recipient: "(c', m) \<in> set (sendTo s c msg) \<Longrightarrow> c' = c"
  by (simp add: sendTo_def split: if_splits)

lemma broadcast_update_recipient:
  assumes "(c', m) \<in> set (broadcast t (AList.update k u rm) msg k)"
  shows "\<exists>p x. (p, x) \<in> set rm \<and> ws x = c'"
proof -
  from broadcast_recipient [OF assms] obtain p x where
    a: "(p, x) \<in> set (AList.update k u rm)" "ws x = c'" "p \<noteq> k" by blast
  with set_update_subset [of k u rm] have "(p, x) \<in> set rm" by auto
  with a show ?thesis by blast
qed

lemma on_message_recipients:
  assumes cn: "conns s c = Some cn"
    and r: "(c', x) \<in> set (sent (on_message mx c addr raw s))"
  shows "c' = c \<or> (\<exists>p v. (p, v) \<in> set (heap s (room cn)) \<and> ws v = c')"
proof (cases raw)
  case None
  with cn r show ?thesis by (simp add: on_message_def)
next
  case (Some msg)
  consider (j) "get_prop msg ''type'' = JStr ''join''"
    | (u) "get_prop msg ''type'' = JStr ''state_update''"
    | (c) "get_prop msg ''type'' = JStr ''custom''"
    | (n) "get_prop msg ''type'' \<noteq> JStr ''join''" "get_prop msg ''type'' \<noteq> JStr ''state_update''"
          "get_prop msg ''type'' \<noteq> JStr ''custom''"
    by blast
  then show ?thesis
  proof cases
    case j
    with r Some have e: "(c', x) \<in> set (sent (case_join mx c cn addr msg s))"
      by (simp add: on_message_join [OF cn])
    show ?thesis
    proof (cases "room_full mx (length (heap s (room cn)))")
      case True
      with e show ?thesis
        by (auto simp: case_join_def Let_def dest: sendTo_recipient)
    next
      case False
      from e have "(c', x) \<in> set (sendTo s c (Room_state (playersList (heap s (room cn))))) \<or>
          (c', x) \<in> set (broadcast s (heap s (room cn))
             (Player_joined (hold addr (get_prop msg ''playerId''))
                (js_or (get_prop msg ''username'') (JStr ''Player'')))
             (hold addr (get_prop msg ''playerId'')))"
        by (simp add: case_join_accepted [OF cn False refl refl refl refl] split: if_splits)
      then show ?thesis
        using sendTo_recipient broadcast_recipient by blast
    qed
  next
    case u
    with r Some have e: "(c', x) \<in> set (sent (case_state_update c cn msg s))"
      by (simp add: on_message_state_update [OF cn])
    show ?thesis
    proof (cases "if truthy (content (playerId cn)) then map_of (heap s (room cn)) (playerId cn)
                  else None")
      case None
      with e show ?thesis by (simp add: case_state_update_def Let_def)
    next
      case (Some sess)
      with e obtain t u m2 where
        "(c', x) \<in> set (broadcast t (AList.update (playerId cn) u (heap s (room cn))) m2 (playerId cn))"
        by (auto simp: case_state_update_def Let_def)
      from broadcast_update_recipient [OF this] show ?thesis by blast
    qed
  next
    case c
    with r Some have "(c', x) \<in> set (sent (case_custom c cn msg s))"
      by (simp add: on_message_custom [OF cn])
    then obtain m2 where "(c', x) \<in> set (broadcast s (heap s (room cn)) m2 (playerId cn))"
      by (auto simp: case_custom_def Let_def)
    from broadcast_recipient [OF this] show ?thesis by blast
  next
    case n
    with Some cn r show ?thesis
      by (simp add: on_message_def split: if_splits)
  qed
qed

lemma on_close_recipients:
  assumes cn: "conns s c = Some cn" and r: "(c', x) \<in> set (fst (on_close c s))"
  shows "\<exists>p v. (p, v) \<in> set (heap s (room cn)) \<and> ws v = c'"
proof (cases "truthy (content (playerId cn))")
  case False
  with assms show ?thesis by (simp add: on_close_def)
next
  case True
  show ?thesis
  proof (cases "map_of (heap s (room cn)) (playerId cn)")
    case None
    with True assms show ?thesis by (simp add: on_close_def)
  next
    case (Some sess)
    from on_close_removes [OF cn True Some] r
    have "(c', x) \<in> set (broadcast s (AList.delete (playerId cn) (heap s (room cn)))
            (Player_left (playerId cn) (username sess)) (Val JNull))"
      by simp
    from broadcast_recipient [OF this] set_delete_subset [of "playerId cn" "heap s (room cn)"]
    show ?thesis by blast
  qed
qed

lemma on_error_sends_nothing: "fst (on_error c s) = []"
  by (auto simp: on_error_def Let_def split: option.splits)

lemma same_room_same_key:
  assumes w: "wf_state s" and cn: "conns s c = Some cn"
    and v: "(p, v) \<in> set (heap s (room cn))"
  shows "\<exists>cn'. conns s (ws v) = Some cn' \<and> room cn' = room cn \<and> roomKey cn' = roomKey cn"
proof -
  from wf_session [OF w v] obtain cn' where c': "conns s (ws v) = Some cn'" "room cn' = room cn"
    by blast
  from wf_same_room [OF w c'(1) cn c'(2)] c' show ?thesis by simp
qed

lemma message_isolation:
  assumes w: "wf_state s" and cn: "conns s c = Some cn"
    and r: "(c', x) \<in> set (sent (on_message mx c addr raw s))"
  shows "\<exists>cn'. conns s c' = Some cn' \<and> room cn' = room cn \<and> roomKey cn' = roomKey cn"
proof -
  from on_message_recipients [OF cn r]
  show ?thesis
  proof
    assume "c' = c"
    with cn show ?thesis by simp
  next
    assume "\<exists>p v. (p, v) \<in> set (heap s (room cn)) \<and> ws v = c'"
    then obtain p v where v: "(p, v) \<in> set (heap s (room cn))" "ws v = c'" by blast
    from same_room_same_key [OF w cn v(1)] v(2) show ?thesis by simp
  qed
qed

lemma close_isolation:
  assumes w: "wf_state s" and cn: "conns s c = Some cn"
    and r: "(c', x) \<in> set (fst (on_close c (set_ready c CLOSED s)))"
  shows "\<exists>cn'. conns s c' = Some cn' \<and> room cn' = room cn \<and> roomKey cn' = roomKey cn"
proof -
  have c0: "conns (set_ready c CLOSED s) c = Some (cn\<lparr>readyState := CLOSED\<rparr>)"
    using cn by (simp add: set_ready_def)
  from on_close_recipients [OF c0 r] obtain p v where
    v: "(p, v) \<in> set (heap s (room cn))" "ws v = c'" by auto
  from same_room_same_key [OF w cn v(1)] v(2) show ?thesis by simp
qed

lemma on_connection_key:
  "\<exists>cn. conns (on_connection g r s) (next_conn s) = Some cn \<and>
     roomKey cn = param_or g ''unknown'' @ ''__'' @ param_or r ''default''"
  by (auto simp: on_connection_def getRoom_def Let_def split: option.splits)

lemma rooms_isolated_by_key_string:
  assumes "run mx evs init = (out0, Some s)"
    and "(c', x) \<in> set (sent (step mx ev s))"
  shows "\<exists>d cn' cn''. (ev = Close d \<or> (\<exists>addr raw. ev = Message d addr raw)) \<and>
           conns s d = Some cn' \<and> conns s c' = Some cn'' \<and>
           room cn'' = room cn' \<and> roomKey cn'' = roomKey cn'"
proof -
  have w: "wf_state s"
    using wf_run [OF wf_init assms(1)] .
  show ?thesis
  proof (cases ev)
    case (Connection g r)
    with assms(2) show ?thesis by (simp add: step_def)
  next
    case (Message d addr raw)
    with assms(2) have m: "(c', x) \<in> set (sent (on_message mx d addr raw s))"
      by (simp add: step_def)
    show ?thesis
    proof (cases "conns s d")
      case None
      with m show ?thesis by (simp add: on_message_def)
    next
      case (Some cn')
      from message_isolation [OF w Some m] Some Message show ?thesis by blast
    qed
  next
    case (Close d)
    with assms(2) have o: "(c', x) \<in> set (fst (on_close d (set_ready d CLOSED s)))"
      by (simp add: step_Close_parts)
    show ?thesis
    proof (cases "conns s d")
      case None
      with o show ?thesis by (simp add: on_close_def set_ready_def)
    next
      case (Some cn')
      from close_isolation [OF w Some o] Some Close show ?thesis by blast
    qed
  next
    case (Error d)
    with assms(2) on_error_sends_nothing [of d s] show ?thesis
      by (auto simp: step_def split: prod.splits)
  next
    case (Transport d rs)
    with assms(2) show ?thesis by (simp add: step_def)
  qed
qed


subsection \<open>The example states are states of the running server\<close>

lemma al_joined_reachable:
  "run (Some 50) (lobby @ [Message 0 0 (Some (join_msg ''p1'' ''Al''))]) init =
     ([(0, Room_state [])], Some al_joined)"
  by (simp add: lobby_def step_def on_connection_def getRoom_def init_def param_or_def Let_def room_full_def
      on_message_def join_msg_def case_join_def sendTo_def ready_def broadcast_def playersList_def js_or_def al_joined_def lobby_conn_def fun_upd_twist)


lemma two_rooms_reachable:
  "run (Some 50) [Connection (Some ''1'') (Some ''lobby''), Connection (Some ''1'') (Some ''arena''),
                  Message 0 0 (Some (join_msg ''p1'' ''Al'')),
                  Message 1 1 (Some (join_msg ''p2'' ''Bo''))] init =
     ([(0, Room_state []), (1, Room_state [])], Some two_rooms)"
  by (simp add: step_def on_connection_def getRoom_def init_def param_or_def Let_def
      room_full_def on_message_def join_msg_def case_join_def sendTo_def ready_def broadcast_def
      playersList_def js_or_def two_rooms_def lobby_conn_def fun_upd_twist)


subsection \<open>Disconnects: the error event\<close>

text \<open>
  C1. The claim: a transport error of a joined session removes the session and sends
  \<open>player_left\<close> to the remaining members, exactly as a close does. In the state
  \<open>both_joined\<close> the error handler of the second client removes its session and sends
  nothing, the close handler that follows finds no session and sends nothing either, so
  the first client never learns that \<open>p2\<close> left; the close handler alone would have
  sent it \<open>player_left\<close>.
\<close>

theorem C1_error_sends_no_player_left:
  "fst (on_error 1 both_joined) = [] \<and>
   heap (snd (on_error 1 both_joined)) 0 =
     [(Val (JStr ''p1''), \<lparr>ws = 0, username = JStr ''Al'', data = []\<rparr>)] \<and>
   fst (on_close 1 (snd (on_error 1 both_joined))) = [] \<and>
   fst (on_close 1 both_joined) = [(0, Player_left (Val (JStr ''p2'')) (JStr ''Bo''))]"
  by (simp add: on_error_def on_close_def both_joined_def lobby_conn_def Let_def broadcast_def
      ready_def cleanEmpty_def)


subsection \<open>Room keys\<close>

text \<open>
  C2. The claim: two distinct pairs of game and room identifier give two rooms that never
  exchange a message. The registry key is the string \<open>gameId__roomId\<close>, and the pairs
  (\<open>a__b\<close>, \<open>c\<close>) and (\<open>a\<close>, \<open>b__c\<close>) give the same string: both connections
  hold room \<open>0\<close>, the only entry of the registry, and the first client receives the
  \<open>player_joined\<close> of the second. What the server does keep apart are connections whose
  key strings differ (lemma \<open>rooms_isolated_by_key_string\<close>).
\<close>

theorem C2_distinct_pairs_share_a_room:
  "fst (run (Some 50) [Connection (Some ''a__b'') (Some ''c''),
                       Connection (Some ''a'') (Some ''b__c''),
                       Message 0 0 (Some (join_msg ''p1'' ''Al'')),
                       Message 1 1 (Some (join_msg ''p2'' ''Bo''))] init) =
     [(0, Room_state []),
      (1, Room_state [Player_entry (Val (JStr ''p1'')) (JStr ''Al'') []]),
      (0, Player_joined (Val (JStr ''p2'')) (JStr ''Bo''))] \<and>
   map_option (\<lambda>s. (map_option room (conns s 0), map_option room (conns s 1), rooms s))
     (snd (run (Some 50) [Connection (Some ''a__b'') (Some ''c''),
                          Connection (Some ''a'') (Some ''b__c''),
                          Message 0 0 (Some (join_msg ''p1'' ''Al'')),
                          Message 1 1 (Some (join_msg ''p2'' ''Bo''))] init)) =
     Some (Some 0, Some 0, [(''a__b__c'', 0)])"
  by code_simp


subsection \<open>Capacity\<close>




subsection \<open>The snapshot sent to a joining client\<close>

text \<open>
  C4, as amended. For every join that is not rejected, the \<open>room_state\<close> snapshot sent
  to the joining connection lists exactly the members present before the insertion (id,
  username and data of each, in the order of the room), followed by the \<open>player_joined\<close>
  broadcast; these are all the sends of the handler, whether it then returns or its log
  line throws. The snapshot contains an entry whose id is the joiner's own \<open>playerId\<close>
  exactly when a session was already stored under that id; when the id is new to the room
  it contains none.
\<close>

theorem C4_room_state_snapshot:
  "conns s c = Some cn \<and> get_prop msg ''type'' = JStr ''join'' \<and>
   \<not> room_full mx (length (heap s (room cn))) \<longrightarrow>
   sent (on_message mx c addr (Some msg) s) =
      sendTo s c (Room_state
              (map (\<lambda>(id, sess). Player_entry id (username sess) (data sess))
                 (heap s (room cn)))) @
      broadcast s (heap s (room cn))
              (Player_joined (hold addr (get_prop msg ''playerId''))
                 (js_or (get_prop msg ''username'') (JStr ''Player'')))
              (hold addr (get_prop msg ''playerId'')) \<and>
   (hold addr (get_prop msg ''playerId'') \<in>
      entry_id ` set (map (\<lambda>(id, sess). Player_entry id (username sess) (data sess))
                       (heap s (room cn)))
    \<longleftrightarrow> map_of (heap s (room cn)) (hold addr (get_prop msg ''playerId'')) \<noteq> None)"
proof (intro impI conjI)
  assume h: "conns s c = Some cn \<and> get_prop msg ''type'' = JStr ''join'' \<and>
   \<not> room_full mx (length (heap s (room cn)))"
  let ?pid = "hold addr (get_prop msg ''playerId'')"
  from h have cn: "conns s c = Some cn" and ty: "get_prop msg ''type'' = JStr ''join''"
    and nf: "\<not> room_full mx (length (heap s (room cn)))"
    by simp_all
  show "sent (on_message mx c addr (Some msg) s) =
      sendTo s c (Room_state
              (map (\<lambda>(id, sess). Player_entry id (username sess) (data sess))
                 (heap s (room cn)))) @
      broadcast s (heap s (room cn))
              (Player_joined ?pid (js_or (get_prop msg ''username'') (JStr ''Player'')))
              ?pid"
    using on_message_join_accepted(1) [OF cn ty nf refl refl refl]
    by (simp add: playersList_def)
  show "?pid \<in> entry_id ` set (map (\<lambda>(id, sess). Player_entry id (username sess) (data sess))
                       (heap s (room cn)))
    \<longleftrightarrow> map_of (heap s (room cn)) ?pid \<noteq> None"
    by (force simp: map_of_eq_None_iff image_iff split: prod.splits)
qed

text \<open>
  At \<open>al_joined\<close>: the second client joins as \<open>p2\<close> and is sent the entry of \<open>p1\<close>
  only.
\<close>

theorem C4_room_state_snapshot_witness:
  "conns al_joined 1 = Some (lobby_conn (Val JNull)) \<and>
   get_prop (join_msg ''p2'' ''Bo'') ''type'' = JStr ''join'' \<and>
   \<not> room_full (Some 50) (length (heap al_joined 0)) \<and>
   sent (on_message (Some 50) 1 1 (Some (join_msg ''p2'' ''Bo'')) al_joined) =
      [(1, Room_state [Player_entry (Val (JStr ''p1'')) (JStr ''Al'') []]),
       (0, Player_joined (Val (JStr ''p2'')) (JStr ''Bo''))] \<and>
   map_of (heap al_joined 0) (Val (JStr ''p2'')) = None \<and>
   Val (JStr ''p2'') \<notin>
     entry_id ` set (map (\<lambda>(id, sess). Player_entry id (username sess) (data sess))
                      (heap al_joined 0))"
  using C4_room_state_snapshot [of al_joined 1 "lobby_conn (Val JNull)" "join_msg ''p2'' ''Bo''"
      "Some 50" 1]
  by (simp add: al_joined_def lobby_conn_def join_msg_def room_full_def ready_def js_or_def
      sendTo_def broadcast_def)

text \<open>
  The claim as first stated (the snapshot never contains the joiner's own \<open>playerId\<close>)
  fails when the id is already in the room: the second client joins as \<open>p\<close>, like the
  first, is accepted, and its snapshot holds the entry with id \<open>p\<close>.
\<close>

theorem C4_own_id_in_snapshot:
  "fst (run (Some 50) (lobby @ [Message 0 0 (Some (join_msg ''p'' ''Al'')),
                                Message 1 1 (Some (join_msg ''p'' ''Bo''))]) init) =
     [(0, Room_state []),
      (1, Room_state [Player_entry (Val (JStr ''p'')) (JStr ''Al'') []])] \<and>
   map_option (\<lambda>s. heap s 0)
     (snd (run (Some 50) (lobby @ [Message 0 0 (Some (join_msg ''p'' ''Al'')),
                                   Message 1 1 (Some (join_msg ''p'' ''Bo''))]) init)) =
     Some [(Val (JStr ''p''), \<lparr>ws = 1, username = JStr ''Bo'', data = []\<rparr>)]"
  by code_simp


subsection \<open>State updates\<close>

text \<open>
  C5, as amended. A \<open>state_update\<close> with data \<open>d\<close> from a connection whose recorded
  \<open>playerId\<close> is truthy and names a session of its room: the data of that session becomes
  the shallow merge (the properties of \<open>d\<close> overwrite, the other stored properties
  persist; nothing else in the session, the room, the other rooms, the connections or the
  registry changes), and a \<open>state_update\<close> carrying the \<open>playerId\<close>, the username of
  the session and \<open>d\<close> itself is sent to every member stored under another id whose
  socket is open, and to no one else. When the recorded \<open>playerId\<close> is falsy or names no
  session of the room, nothing changes and nothing is sent.
\<close>

theorem C5_state_update:
  "conns s c = Some cn \<and> get_prop msg ''type'' = JStr ''state_update'' \<longrightarrow>
   (\<forall>sess. truthy (content (playerId cn)) \<and>
        map_of (heap s (room cn)) (playerId cn) = Some sess \<longrightarrow>
      (\<exists>s'. on_message mx c addr (Some msg) s =
         Done (map (\<lambda>(id, x). (ws x, State_update (playerId cn) (username sess)
                                      (get_prop msg ''data'')))
                 (filter (\<lambda>(id, x). id \<noteq> playerId cn \<and> ready s (ws x) = OPEN)
                    (heap s (room cn)))) s' \<and>
         (\<exists>sess'. map_of (heap s' (room cn)) (playerId cn) = Some sess' \<and>
            ws sess' = ws sess \<and> username sess' = username sess \<and>
            map_of (data sess') =
              map_of (data sess) ++ map_of (rev (own_props (get_prop msg ''data'')))) \<and>
         (\<forall>k. k \<noteq> playerId cn \<longrightarrow>
              map_of (heap s' (room cn)) k = map_of (heap s (room cn)) k) \<and>
         (\<forall>a. a \<noteq> room cn \<longrightarrow> heap s' a = heap s a) \<and>
         conns s' = conns s \<and> rooms s' = rooms s)) \<and>
   (\<not> truthy (content (playerId cn)) \<or> map_of (heap s (room cn)) (playerId cn) = None \<longrightarrow>
      on_message mx c addr (Some msg) s = Done [] s)"
  by (auto simp: on_message_state_update case_state_update_def Let_def broadcast_def
      filter_update_excluded update_conv' map_of_spread)

text \<open>
  At \<open>both_joined\<close> the first client sends \<open>{x: 1}\<close>: the second receives it and the
  stored data of \<open>p1\<close> has \<open>x\<close>. At \<open>al_joined\<close> the second client, not joined,
  sends the same frame: nothing happens.
\<close>

theorem C5_state_update_witness:
  "(conns both_joined 0 = Some (lobby_conn (Val (JStr ''p1''))) \<and>
    get_prop (state_update_msg [(''x'', JNum 1)]) ''type'' = JStr ''state_update'' \<and>
    truthy (content (Val (JStr ''p1''))) \<and>
    map_of (heap both_joined 0) (Val (JStr ''p1'')) =
      Some \<lparr>ws = 0, username = JStr ''Al'', data = []\<rparr> \<and>
    (\<exists>s'. on_message (Some 50) 0 2 (Some (state_update_msg [(''x'', JNum 1)])) both_joined =
         Done [(1, State_update (Val (JStr ''p1'')) (JStr ''Al'') (JObj [(''x'', JNum 1)]))] s' \<and>
       (\<exists>sess'. map_of (heap s' 0) (Val (JStr ''p1'')) = Some sess' \<and>
          map_of (data sess') ''x'' = Some (JNum 1)) \<and>
       map_of (heap s' 0) (Val (JStr ''p2'')) =
         Some \<lparr>ws = 1, username = JStr ''Bo'', data = []\<rparr>)) \<and>
   (conns al_joined 1 = Some (lobby_conn (Val JNull)) \<and>
    \<not> truthy (content (Val JNull)) \<and>
    on_message (Some 50) 1 2 (Some (state_update_msg [(''x'', JNum 1)])) al_joined =
      Done [] al_joined)"
proof -
  let ?m = "state_update_msg [(''x'', JNum 1)]"
  have t: "get_prop ?m ''type'' = JStr ''state_update''"
    by (simp add: state_update_msg_def)
  have d: "get_prop ?m ''data'' = JObj [(''x'', JNum 1)]"
    by (simp add: state_update_msg_def)
  have c0: "conns both_joined 0 = Some (lobby_conn (Val (JStr ''p1'')))"
    by (simp add: both_joined_def)
  have c1: "conns al_joined 1 = Some (lobby_conn (Val JNull))"
    by (simp add: al_joined_def)
  have g: "map_of (heap both_joined 0) (Val (JStr ''p1'')) =
      Some \<lparr>ws = 0, username = JStr ''Al'', data = []\<rparr>"
    by (simp add: both_joined_def)
  have g2: "map_of (heap both_joined 0) (Val (JStr ''p2'')) =
      Some \<lparr>ws = 1, username = JStr ''Bo'', data = []\<rparr>"
    by (simp add: both_joined_def)
  have f: "filter (\<lambda>(id, x). id \<noteq> Val (JStr ''p1'') \<and> ready both_joined (ws x) = OPEN)
             (heap both_joined 0) =
           [(Val (JStr ''p2''), \<lparr>ws = 1, username = JStr ''Bo'', data = []\<rparr>)]"
    by (simp add: both_joined_def ready_def lobby_conn_def)
  from C5_state_update [of both_joined 0 "lobby_conn (Val (JStr ''p1''))" ?m "Some 50" 2]
  have "\<exists>s'. on_message (Some 50) 0 2 (Some ?m) both_joined =
         Done [(1, State_update (Val (JStr ''p1'')) (JStr ''Al'') (JObj [(''x'', JNum 1)]))] s' \<and>
       (\<exists>sess'. map_of (heap s' 0) (Val (JStr ''p1'')) = Some sess' \<and>
          map_of (data sess') ''x'' = Some (JNum 1)) \<and>
       map_of (heap s' 0) (Val (JStr ''p2'')) =
         Some \<lparr>ws = 1, username = JStr ''Bo'', data = []\<rparr>"
    using c0 t g g2 by (fastforce simp: lobby_conn_def d f)
  moreover from C5_state_update [of al_joined 1 "lobby_conn (Val JNull)" ?m "Some 50" 2]
  have "on_message (Some 50) 1 2 (Some ?m) al_joined = Done [] al_joined"
    using c1 t by (simp add: lobby_conn_def)
  ultimately show ?thesis
    using c0 c1 t g by simp
qed

text \<open>
  The claim as first stated fails twice. A client that joined under the empty string has
  a session, yet its \<open>state_update\<close> is dropped: nothing is sent and the stored data stays
  empty. And a client that joined twice, as \<open>a\<close> and then as \<open>b\<close>, receives its own
  \<open>state_update\<close> through the session it still has under \<open>a\<close>.
\<close>

theorem C5_falsy_id_and_double_join:
  "(fst (run (Some 50) (lobby @ [Message 0 0 (Some (join_msg '''' ''Al'')),
                                 Message 1 1 (Some (join_msg ''p2'' ''Bo'')),
                                 Message 0 2 (Some (state_update_msg [(''x'', JNum 1)]))]) init) =
      [(0, Room_state []),
       (1, Room_state [Player_entry (Val (JStr '''')) (JStr ''Al'') []]),
       (0, Player_joined (Val (JStr ''p2'')) (JStr ''Bo''))] \<and>
    map_option (\<lambda>s. heap s 0)
      (snd (run (Some 50) (lobby @ [Message 0 0 (Some (join_msg '''' ''Al'')),
                                    Message 1 1 (Some (join_msg ''p2'' ''Bo'')),
                                    Message 0 2 (Some (state_update_msg [(''x'', JNum 1)]))]) init)) =
      Some [(Val (JStr ''''), \<lparr>ws = 0, username = JStr ''Al'', data = []\<rparr>),
            (Val (JStr ''p2''), \<lparr>ws = 1, username = JStr ''Bo'', data = []\<rparr>)]) \<and>
   fst (run (Some 50) [Connection (Some ''1'') (Some ''lobby''),
                       Message 0 0 (Some (join_msg ''a'' ''Al'')),
                       Message 0 1 (Some (join_msg ''b'' ''Al'')),
                       Message 0 2 (Some (state_update_msg [(''x'', JNum 1)]))] init) =
      [(0, Room_state []),
       (0, Room_state [Player_entry (Val (JStr ''a'')) (JStr ''Al'') []]),
       (0, Player_joined (Val (JStr ''b'')) (JStr ''Al'')),
       (0, State_update (Val (JStr ''b'')) (JStr ''Al'') (JObj [(''x'', JNum 1)]))]"
  by code_simp


subsection \<open>Custom events from a connection that has not joined\<close>

text \<open>
  C6. The claim: a \<open>custom\<close> frame from a connection that has not joined sends nothing.
  The \<open>custom\<close> case has no guard (the \<open>state_update\<close> case has one): at \<open>al_joined\<close>
  the frame of the second client, which never joined, is sent to the first with
  \<open>playerId\<close> \<open>null\<close>. The state is unchanged and nothing throws.
\<close>

theorem C6_custom_from_unjoined_is_broadcast:
  "on_message (Some 50) 1 1 (Some (custom_msg ''ping'' (JNum 7))) al_joined =
     Done [(0, Custom (Val JNull) (JStr ''ping'') (JNum 7))] al_joined"
  by (simp add: on_message_def case_custom_def custom_msg_def al_joined_def lobby_conn_def
      Let_def broadcast_def ready_def)


subsection \<open>Empty rooms\<close>





subsection \<open>A rejected join, then a transport error\<close>





subsection \<open>Joining under an identifier that is taken\<close>






subsection \<open>A join without playerId\<close>

text \<open>
  C10, as amended. A join frame without \<open>playerId\<close>, arriving when the room is below
  capacity, is handled like any join: the session is stored under \<open>undefined\<close>, the
  snapshot is sent to the joiner and \<open>player_joined\<close> with \<open>playerId\<close> \<open>undefined\<close> is
  sent to every member stored under another id whose socket is open; the username is
  \<open>Player\<close> when the frame has none. The handler then returns, unless the username of
  the frame does not convert to text.
\<close>

theorem C10_join_without_playerId:
  "conns s c = Some cn \<and> get_prop (JObj ps) ''type'' = JStr ''join'' \<and>
   ''playerId'' \<notin> fst ` set ps \<and> \<not> room_full mx (length (heap s (room cn))) \<longrightarrow>
   (\<exists>uname.
      sent (on_message mx c addr (Some (JObj ps)) s) =
        sendTo s c (Room_state (playersList (heap s (room cn)))) @
        map (\<lambda>(id, x). (ws x, Player_joined (Val JUndefined) uname))
          (filter (\<lambda>(id, x). id \<noteq> Val JUndefined \<and> ready s (ws x) = OPEN)
             (heap s (room cn))) \<and>
      map_of (heap (left (on_message mx c addr (Some (JObj ps)) s)) (room cn)) (Val JUndefined) =
        Some \<lparr>ws = c, username = uname, data = []\<rparr> \<and>
      uname = js_or (get_prop (JObj ps) ''username'') (JStr ''Player'') \<and>
      (''username'' \<notin> fst ` set ps \<longrightarrow> uname = JStr ''Player'') \<and>
      ((\<exists>out s'. on_message mx c addr (Some (JObj ps)) s = Done out s') \<longleftrightarrow>
         \<not> to_text_throws uname))"
proof (intro impI)
  assume h: "conns s c = Some cn \<and> get_prop (JObj ps) ''type'' = JStr ''join'' \<and>
   ''playerId'' \<notin> fst ` set ps \<and> \<not> room_full mx (length (heap s (room cn)))"
  let ?r = "on_message mx c addr (Some (JObj ps)) s"
  let ?u = "js_or (get_prop (JObj ps) ''username'') (JStr ''Player'')"
  have absent: "\<And>k. k \<notin> fst ` set ps \<Longrightarrow> get_prop (JObj ps) k = JUndefined"
    by (simp add: map_of_eq_None_iff[THEN iffD2])
  have pid: "Val JUndefined = hold addr (get_prop (JObj ps) ''playerId'')"
    using h by (simp add: absent del: get_prop.simps)
  from h have cn: "conns s c = Some cn" and ty: "get_prop (JObj ps) ''type'' = JStr ''join''"
    and nf: "\<not> room_full mx (length (heap s (room cn)))"
    by blast+
  note j = on_message_join_accepted [OF cn ty nf pid refl refl]
  have 1: "sent ?r =
        sendTo s c (Room_state (playersList (heap s (room cn)))) @
        map (\<lambda>(id, x). (ws x, Player_joined (Val JUndefined) ?u))
          (filter (\<lambda>(id, x). id \<noteq> Val JUndefined \<and> ready s (ws x) = OPEN)
             (heap s (room cn)))"
    by (simp add: j(1) broadcast_def del: get_prop.simps)
  have 2: "map_of (heap (left ?r) (room cn)) (Val JUndefined) =
        Some \<lparr>ws = c, username = ?u, data = []\<rparr>"
    by (simp add: j(2) update_conv' del: get_prop.simps)
  have 3: "''username'' \<notin> fst ` set ps \<longrightarrow> ?u = JStr ''Player''"
    by (simp add: absent js_or_def del: get_prop.simps)
  have 4: "(\<exists>out s'. ?r = Done out s') \<longleftrightarrow> \<not> to_text_throws ?u"
  proof
    assume "\<exists>out s'. ?r = Done out s'"
    then obtain out s' where "?r = Done out s'" by blast
    then have "?r = Done (sent ?r) (left ?r)" by simp
    with j(3) show "\<not> to_text_throws ?u" by simp
  next
    assume "\<not> to_text_throws ?u"
    with j(3) have "?r = Done (sent ?r) (left ?r)" by simp
    then show "\<exists>out s'. ?r = Done out s'" by blast
  qed
  show "\<exists>uname.
      sent ?r =
        sendTo s c (Room_state (playersList (heap s (room cn)))) @
        map (\<lambda>(id, x). (ws x, Player_joined (Val JUndefined) uname))
          (filter (\<lambda>(id, x). id \<noteq> Val JUndefined \<and> ready s (ws x) = OPEN)
             (heap s (room cn))) \<and>
      map_of (heap (left ?r) (room cn)) (Val JUndefined) =
        Some \<lparr>ws = c, username = uname, data = []\<rparr> \<and>
      uname = ?u \<and>
      (''username'' \<notin> fst ` set ps \<longrightarrow> uname = JStr ''Player'') \<and>
      ((\<exists>out s'. ?r = Done out s') \<longleftrightarrow> \<not> to_text_throws uname)"
    using 1 2 3 4 by blast
qed

text \<open>
  At \<open>al_joined\<close>: the second client sends \<open>{type: "join"}\<close>.
\<close>

theorem C10_join_without_playerId_witness:
  "conns al_joined 1 = Some (lobby_conn (Val JNull)) \<and>
   get_prop (JObj [(''type'', JStr ''join'')]) ''type'' = JStr ''join'' \<and>
   ''playerId'' \<notin> fst ` set [(''type'', JStr ''join'')] \<and>
   ''username'' \<notin> fst ` set [(''type'', JStr ''join'')] \<and>
   \<not> room_full (Some 50) (length (heap al_joined 0)) \<and>
   sent (on_message (Some 50) 1 1 (Some (JObj [(''type'', JStr ''join'')])) al_joined) =
     [(1, Room_state [Player_entry (Val (JStr ''p1'')) (JStr ''Al'') []]),
      (0, Player_joined (Val JUndefined) (JStr ''Player''))] \<and>
   map_of (heap (left (on_message (Some 50) 1 1 (Some (JObj [(''type'', JStr ''join'')]))
                        al_joined)) 0) (Val JUndefined) =
     Some \<lparr>ws = 1, username = JStr ''Player'', data = []\<rparr> \<and>
   (\<exists>out s'. on_message (Some 50) 1 1 (Some (JObj [(''type'', JStr ''join'')])) al_joined =
        Done out s')"
  using C10_join_without_playerId [of al_joined 1 "lobby_conn (Val JNull)"
      "[(''type'', JStr ''join'')]" "Some 50" 1]
  by (simp add: al_joined_def lobby_conn_def room_full_def ready_def js_or_def
      sendTo_def playersList_def)

text \<open>
  The claim as first stated (a join without \<open>playerId\<close> is not rejected) fails at
  capacity, where the check of lines 85 to 89 comes first: with \<open>MAX_PLAYERS = 1\<close> and
  one client in the room, the frame \<open>{type: "join"}\<close> of the second client is answered
  with the error message, its socket is closed, and no session is stored under
  \<open>undefined\<close>.
\<close>

theorem C10_rejected_at_capacity:
  "fst (run (Some 1) (lobby @ [Message 0 0 (Some (join_msg ''p1'' ''Al'')),
                               Message 1 1 (Some (JObj [(''type'', JStr ''join'')]))]) init) =
     [(0, Room_state []), (1, Error_msg ''Room is full'')] \<and>
   map_option (\<lambda>s. (heap s 0, ready s 1))
     (snd (run (Some 1) (lobby @ [Message 0 0 (Some (join_msg ''p1'' ''Al'')),
                                  Message 1 1 (Some (JObj [(''type'', JStr ''join'')]))]) init)) =
     Some ([(Val (JStr ''p1''), \<lparr>ws = 0, username = JStr ''Al'', data = []\<rparr>)], CLOSING)"
  by code_simp

end
